theory Spec2Isabelle
  imports Complex_Main "HOL-Library.AList" "HOL-Library.Multiset"
begin

section \<open>Association rules over an order stream (Instacart\_association.ipynb)\<close>

text \<open>
  The notebook's input \<open>order_item\<close> is a pandas Series whose index is the order id and
  whose values are the item ids, one row per item of an order. It is modelled as the list
  of its rows \<open>(order_id, item_id)\<close>, in the order of the Series. Identifiers are Python
  integers.

  Supports, confidences and lifts are float64 values in the notebook. A finite float64
  value is a rational number, so these columns have type \<open>rat\<close>; what float64 adds is
  the rounding of every conversion, division and multiplication. The pipeline is
  therefore embedded twice. \<open>association_rules_fp\<close> takes the arithmetic as a parameter
  (three functions, left arbitrary), so what is proved of it holds of the float64 code
  whatever the rounding does; \<open>association_rules\<close> is its instance at exact arithmetic
  (lemma \<open>association_rules_fp_exact\<close>), used for the identities the specification
  states over the rationals. Infinities and NaN are not modelled: a support is a count
  divided by a positive count, and \<open>min_support\<close> is a finite number.
\<close>

type_synonym order_item = "(int \<times> int) list"

subsection \<open>Library primitives the notebook calls\<close>

text \<open>
  \<open>itertools.groupby(rows, key)\<close>: one group per maximal run of consecutive rows with
  the same key, in stream order. It does not sort.
\<close>

function groupby :: "('a \<Rightarrow> 'k) \<Rightarrow> 'a list \<Rightarrow> ('k \<times> 'a list) list" where
  "groupby key [] = []"
| "groupby key (x # xs) =
     (key x, x # takeWhile (\<lambda>y. key y = key x) xs)
       # groupby key (dropWhile (\<lambda>y. key y = key x) xs)"
  by pat_completeness auto
termination
  by (relation "measure (\<lambda>(key, xs). length xs)")
     (auto simp: length_dropWhile_le less_Suc_eq_le)

text \<open>
  \<open>itertools.combinations(item_list, 2)\<close>: the tuples \<open>(item_list[i], item_list[j])\<close>
  with \<open>i < j\<close>, in lexicographic order of the positions. The members of a tuple keep
  the order they have in \<open>item_list\<close>.
\<close>

fun combinations2 :: "'a list \<Rightarrow> ('a \<times> 'a) list" where
  "combinations2 [] = []"
| "combinations2 (x # xs) = map (Pair x) xs @ combinations2 xs"

text \<open>
  \<open>collections.Counter(iterable)\<close>: a dict in insertion order; every element read adds one
  to the count stored under it, a new key is appended.
\<close>

definition counter_step :: "('k \<times> nat) list \<Rightarrow> 'k \<Rightarrow> ('k \<times> nat) list" where
  "counter_step m k =
     AList.update k (case map_of m k of None \<Rightarrow> 1 | Some c \<Rightarrow> c + 1) m"

definition Counter :: "'k list \<Rightarrow> ('k \<times> nat) list" where
  "Counter xs = foldl counter_step [] xs"

text \<open>
  \<open>Series.value_counts()\<close>: the distinct values with the number of their occurrences,
  sorted by that number, descending; values with the same count stay in the order of their
  first occurrence. (Its default also leaves out missing values; integer keys are never
  missing.)
\<close>

definition unique :: "'k list \<Rightarrow> 'k list" where
  "unique xs = rev (remdups (rev xs))"

definition value_counts :: "'k list \<Rightarrow> ('k \<times> nat) list" where
  "value_counts xs =
     sort_key (\<lambda>(k, c). - int c) (map (\<lambda>k. (k, count_list xs k)) (unique xs))"

subsection \<open>Helper functions of the notebook\<close>

text \<open>
  \<open>freq\<close> dispatches on the runtime type of its argument: a pandas Series goes to
  \<open>value_counts\<close>, anything else (an Index, a generator) to \<open>Counter\<close>.
\<close>

datatype 'k iterable = Series "'k list" | Iterable "'k list"

fun freq :: "'k iterable \<Rightarrow> ('k \<times> nat) list" where
  "freq (Series xs) = value_counts xs"
| "freq (Iterable xs) = Counter xs"

definition order_count :: "order_item \<Rightarrow> nat" where
  "order_count order_item = card (set (map fst order_item))"

text \<open>The body of the outer loop of \<open>get_item_pairs\<close>, for one group of \<open>groupby\<close>.\<close>

definition order_pairs :: "int \<times> (int \<times> int) list \<Rightarrow> (int \<times> int) list" where
  "order_pairs g = (let item_list = map snd (snd g) in combinations2 item_list)"

definition get_item_pairs :: "order_item \<Rightarrow> (int \<times> int) list" where
  "get_item_pairs order_item = concat (map order_pairs (groupby fst order_item))"

subsection \<open>Frames\<close>

text \<open>
  A row of \<open>item_stats\<close>: the frame is indexed by item id and has the columns
  \<open>freq\<close> and \<open>support\<close>.
\<close>

record item_stat =
  item_id :: int
  item_freq :: nat
  item_support :: rat

text \<open>
  A row of \<open>item_pairs\<close>. The two members of the counted tuple are the two levels of
  the frame's index; they become the columns \<open>item_A\<close> and \<open>item_B\<close>. The later records add
  the columns merged in by \<open>merge_item_stats\<close> and the three metrics.
\<close>

record pair_stat =
  item_A :: int
  item_B :: int
  freqAB :: nat
  supportAB :: rat

record stats_row = pair_stat +
  freqA :: nat
  supportA :: rat
  freqB :: nat
  supportB :: rat

record rule = stats_row +
  confidenceAtoB :: rat
  confidenceBtoA :: rat
  lift :: rat

text \<open>
  \<open>pd.Series(Counter(...))\<close> builds its index from the keys of the counter: tuple keys
  give a MultiIndex with two unnamed levels, an empty counter gives a flat, empty, unnamed
  index. Selecting rows by a boolean mask keeps the kind of the index. \<open>nlevels\<close> records
  it.
\<close>

record pairs_frame =
  nlevels :: nat
  rows :: "pair_stat list"

datatype error = KeyError string

definition pair_frame :: "((int \<times> int) \<times> nat) list \<Rightarrow> nat \<Rightarrow> pairs_frame" where
  "pair_frame counts n =
     \<lparr>nlevels = (if counts = [] then 1 else 2),
      rows = map (\<lambda>((a, b), c). \<lparr>item_A = a, item_B = b, freqAB = c,
                     supportAB = of_nat c / of_nat n * 100\<rparr>) counts\<rparr>"

text \<open>
  \<open>reset_index()\<close> turns the index levels into columns: an unnamed flat index becomes the
  column \<open>index\<close>, the unnamed levels of a MultiIndex become \<open>level_0\<close>, \<open>level_1\<close>.
  \<open>rename(columns=...)\<close> renames the columns it finds and ignores the others.
\<close>

definition reset_index_columns :: "pairs_frame \<Rightarrow> string list" where
  "reset_index_columns f =
     (if nlevels f = 1 then [''index''] else [''level_0'', ''level_1''])
       @ [''freqAB'', ''supportAB'']"

definition rename_columns :: "(string \<times> string) list \<Rightarrow> string list \<Rightarrow> string list" where
  "rename_columns m cols = map (\<lambda>c. case map_of m c of None \<Rightarrow> c | Some c' \<Rightarrow> c') cols"

text \<open>
  \<open>merge_item_stats\<close>: two inner merges of the pair rows with \<open>item_stats\<close>, the first on
  the column \<open>item_A\<close>, the second on \<open>item_B\<close>, each against the index of \<open>item_stats\<close>.
  A merge on a column the left frame does not have raises \<open>KeyError\<close>. The column
  \<open>item_A\<close>, where present, is the first index level and \<open>item_B\<close> the second.
\<close>

definition merge_item_stats ::
  "string list \<Rightarrow> pair_stat list \<Rightarrow> item_stat list \<Rightarrow> error + stats_row list" where
  "merge_item_stats cols item_pairs item_stats =
     (if ''item_A'' \<notin> set cols then Inl (KeyError ''item_A'')
      else
        let mergedA = concat (map (\<lambda>p. map (Pair p)
                        (filter (\<lambda>s. item_id s = item_A p) item_stats)) item_pairs)
        in if ''item_B'' \<notin> set cols then Inl (KeyError ''item_B'')
           else Inr (concat (map (\<lambda>(p, sa). map (\<lambda>sb.
                        \<lparr>item_A = item_A p, item_B = item_B p,
                         freqAB = freqAB p, supportAB = supportAB p,
                         freqA = item_freq sa, supportA = item_support sa,
                         freqB = item_freq sb, supportB = item_support sb\<rparr>)
                        (filter (\<lambda>s. item_id s = item_B p) item_stats)) mergedA)))"

subsection \<open>The pipeline\<close>

text \<open>Item frequency and support of a stream (computed twice by \<open>association_rules\<close>).\<close>

definition item_stats_of :: "order_item \<Rightarrow> item_stat list" where
  "item_stats_of order_item =
     map (\<lambda>(i, c). \<lparr>item_id = i, item_freq = c,
                     item_support = of_nat c / of_nat (order_count order_item) * 100\<rparr>)
         (freq (Series (map snd order_item)))"

definition qualifying_items :: "order_item \<Rightarrow> rat \<Rightarrow> int list" where
  "qualifying_items order_item min_support =
     map item_id (filter (\<lambda>s. item_support s \<ge> min_support) (item_stats_of order_item))"

definition prune_items :: "order_item \<Rightarrow> rat \<Rightarrow> order_item" where
  "prune_items order_item min_support =
     filter (\<lambda>r. snd r \<in> set (qualifying_items order_item min_support)) order_item"

definition order_size :: "order_item \<Rightarrow> (int \<times> nat) list" where
  "order_size order_item = freq (Iterable (map fst order_item))"

definition qualifying_orders :: "order_item \<Rightarrow> int list" where
  "qualifying_orders order_item =
     map fst (filter (\<lambda>(k, c). c \<ge> 2) (order_size order_item))"

definition prune_orders :: "order_item \<Rightarrow> order_item" where
  "prune_orders order_item =
     filter (\<lambda>r. fst r \<in> set (qualifying_orders order_item)) order_item"

text \<open>The metrics of one merged row.\<close>

definition add_metrics :: "stats_row \<Rightarrow> rule" where
  "add_metrics r =
     \<lparr>item_A = item_A r, item_B = item_B r, freqAB = freqAB r, supportAB = supportAB r,
      freqA = freqA r, supportA = supportA r, freqB = freqB r, supportB = supportB r,
      confidenceAtoB = supportAB r / supportA r,
      confidenceBtoA = supportAB r / supportB r,
      lift = supportAB r / (supportA r * supportB r)\<rparr>"

text \<open>
  The frame of counted pairs with their support, before and after the pair filter.
  The argument is the stream left by the two filters and the number of qualifying orders.
\<close>

definition counted_pairs :: "order_item \<Rightarrow> nat \<Rightarrow> pairs_frame" where
  "counted_pairs order_item n = pair_frame (freq (Iterable (get_item_pairs order_item))) n"

definition filter_pairs :: "pairs_frame \<Rightarrow> rat \<Rightarrow> pairs_frame" where
  "filter_pairs item_pairs min_support =
     item_pairs\<lparr>rows := filter (\<lambda>p. supportAB p \<ge> min_support) (rows item_pairs)\<rparr>"

text \<open>
  \<open>association_rules\<close>, statement by statement (the prints left out). Sorting by
  \<open>lift\<close>, descending, is a sort on the negated key; pandas leaves the order of ties open.
\<close>

definition association_rules :: "order_item \<Rightarrow> rat \<Rightarrow> error + rule list" where
  "association_rules order_item min_support =
     (let order_item1 = prune_items order_item min_support;
          qualifying_orders = qualifying_orders order_item1;
          order_item2 = prune_orders order_item1;
          item_stats = item_stats_of order_item2;
          item_pairs = counted_pairs order_item2 (length qualifying_orders);
          item_pairs = filter_pairs item_pairs min_support;
          cols = rename_columns [(''level_0'', ''item_A''), (''level_1'', ''item_B'')]
                   (reset_index_columns item_pairs)
      in case merge_item_stats cols (rows item_pairs) item_stats of
           Inl e \<Rightarrow> Inl e
         | Inr merged \<Rightarrow> Inr (sort_key (\<lambda>r. - lift r) (map add_metrics merged)))"

subsection \<open>Notions used to state the properties\<close>

text \<open>
  The single generic counting function of the specification: every key that occurs is
  mapped to the number of its occurrences, no other key is mapped.
\<close>

definition count_keys :: "'k list \<Rightarrow> 'k \<Rightarrow> nat option" where
  "count_keys xs k = (if k \<in> set xs then Some (count_list xs k) else None)"

text \<open>
  The input contract: the rows of one order are contiguous, so that \<open>groupby\<close> yields one
  group per order id.
\<close>

definition grouped :: "order_item \<Rightarrow> bool" where
  "grouped order_item = distinct (map fst (groupby fst order_item))"

text \<open>The rows and the items of one order, and a pair read as an unordered pair.\<close>

definition order_rows :: "int \<Rightarrow> order_item \<Rightarrow> order_item" where
  "order_rows oid order_item = filter (\<lambda>r. fst r = oid) order_item"

definition order_items :: "int \<Rightarrow> order_item \<Rightarrow> int list" where
  "order_items oid order_item = map snd (order_rows oid order_item)"

definition unordered :: "int \<times> int \<Rightarrow> int set" where
  "unordered p = {fst p, snd p}"

text \<open>
  The row of an item in \<open>item_stats\<close>; an item without a row reads as frequency 0.
  \<open>join_row\<close> is the row the two merges build from a pair row when each member has
  exactly one row in \<open>item_stats\<close>.
\<close>

definition stat_of :: "item_stat list \<Rightarrow> int \<Rightarrow> item_stat" where
  "stat_of st a =
     (case filter (\<lambda>s. item_id s = a) st of
        [] \<Rightarrow> \<lparr>item_id = a, item_freq = 0, item_support = 0\<rparr>
      | s # _ \<Rightarrow> s)"

definition join_row :: "item_stat list \<Rightarrow> pair_stat \<Rightarrow> stats_row" where
  "join_row st p =
     \<lparr>item_A = item_A p, item_B = item_B p, freqAB = freqAB p, supportAB = supportAB p,
      freqA = item_freq (stat_of st (item_A p)), supportA = item_support (stat_of st (item_A p)),
      freqB = item_freq (stat_of st (item_B p)), supportB = item_support (stat_of st (item_B p))\<rparr>"

text \<open>
  The stream left by the item filter and the order-size filter, and the number of
  qualifying orders, as \<open>association_rules\<close> computes them from its arguments.
\<close>

definition filtered_stream :: "order_item \<Rightarrow> rat \<Rightarrow> order_item" where
  "filtered_stream order_item min_support = prune_orders (prune_items order_item min_support)"

definition qualifying_order_count :: "order_item \<Rightarrow> rat \<Rightarrow> nat" where
  "qualifying_order_count order_item min_support =
     length (qualifying_orders (prune_items order_item min_support))"

subsection \<open>The pipeline over machine arithmetic\<close>

text \<open>
  The arithmetic of the platform: the conversion of a count to a float, the division and
  the multiplication of two floats. \<open>percent\<close> is the expression
  \<open>freq / count * 100\<close> that the notebook writes for the item supports (twice) and for
  the pair supports: an integer column divided by an integer, then multiplied by 100.
\<close>

record arith =
  conv :: "nat \<Rightarrow> rat"
  fdiv :: "rat \<Rightarrow> rat \<Rightarrow> rat"
  fmul :: "rat \<Rightarrow> rat \<Rightarrow> rat"

definition percent :: "arith \<Rightarrow> nat \<Rightarrow> nat \<Rightarrow> rat" where
  "percent ar c n = fmul ar (fdiv ar (conv ar c) (conv ar n)) (conv ar 100)"

text \<open>
  The stages of \<open>association_rules\<close> again, statement by statement, with every
  conversion, division and multiplication taken from the arithmetic. The comparisons with
  \<open>min_support\<close> and the sort compare the computed values.
\<close>

definition item_stats_fp :: "arith \<Rightarrow> order_item \<Rightarrow> item_stat list" where
  "item_stats_fp ar order_item =
     map (\<lambda>(i, c). \<lparr>item_id = i, item_freq = c,
                     item_support = percent ar c (order_count order_item)\<rparr>)
         (freq (Series (map snd order_item)))"

definition qualifying_items_fp :: "arith \<Rightarrow> order_item \<Rightarrow> rat \<Rightarrow> int list" where
  "qualifying_items_fp ar order_item min_support =
     map item_id (filter (\<lambda>s. item_support s \<ge> min_support) (item_stats_fp ar order_item))"

definition prune_items_fp :: "arith \<Rightarrow> order_item \<Rightarrow> rat \<Rightarrow> order_item" where
  "prune_items_fp ar order_item min_support =
     filter (\<lambda>r. snd r \<in> set (qualifying_items_fp ar order_item min_support)) order_item"

definition pair_frame_fp :: "arith \<Rightarrow> ((int \<times> int) \<times> nat) list \<Rightarrow> nat \<Rightarrow> pairs_frame" where
  "pair_frame_fp ar counts n =
     \<lparr>nlevels = (if counts = [] then 1 else 2),
      rows = map (\<lambda>((a, b), c). \<lparr>item_A = a, item_B = b, freqAB = c,
                     supportAB = percent ar c n\<rparr>) counts\<rparr>"

definition counted_pairs_fp :: "arith \<Rightarrow> order_item \<Rightarrow> nat \<Rightarrow> pairs_frame" where
  "counted_pairs_fp ar order_item n =
     pair_frame_fp ar (freq (Iterable (get_item_pairs order_item))) n"

definition add_metrics_fp :: "arith \<Rightarrow> stats_row \<Rightarrow> rule" where
  "add_metrics_fp ar r =
     \<lparr>item_A = item_A r, item_B = item_B r, freqAB = freqAB r, supportAB = supportAB r,
      freqA = freqA r, supportA = supportA r, freqB = freqB r, supportB = supportB r,
      confidenceAtoB = fdiv ar (supportAB r) (supportA r),
      confidenceBtoA = fdiv ar (supportAB r) (supportB r),
      lift = fdiv ar (supportAB r) (fmul ar (supportA r) (supportB r))\<rparr>"

definition association_rules_fp :: "arith \<Rightarrow> order_item \<Rightarrow> rat \<Rightarrow> error + rule list" where
  "association_rules_fp ar order_item min_support =
     (let order_item1 = prune_items_fp ar order_item min_support;
          qualifying_orders = qualifying_orders order_item1;
          order_item2 = prune_orders order_item1;
          item_stats = item_stats_fp ar order_item2;
          item_pairs = counted_pairs_fp ar order_item2 (length qualifying_orders);
          item_pairs = filter_pairs item_pairs min_support;
          cols = rename_columns [(''level_0'', ''item_A''), (''level_1'', ''item_B'')]
                   (reset_index_columns item_pairs)
      in case merge_item_stats cols (rows item_pairs) item_stats of
           Inl e \<Rightarrow> Inl e
         | Inr merged \<Rightarrow> Inr (sort_key (\<lambda>r. - lift r) (map (add_metrics_fp ar) merged)))"



text \<open>Exact arithmetic: no operation rounds.\<close>

definition exact :: arith where
  "exact = \<lparr>conv = of_nat, fdiv = (\<lambda>a b. a / b), fmul = (\<lambda>a b. a * b)\<rparr>"

text \<open>
  An arithmetic that rounds the result of every operation to 53 significant bits, to
  nearest, ties to even, as binary64 does on its normal range (no overflow, no subnormal
  numbers). \<open>round53 x\<close> writes \<open>\<bar>x\<bar> = p / q\<close>, picks the exponent \<open>e\<close> with
  \<open>2 ^ 52 \<le> \<bar>x\<bar> / 2 ^ e < 2 ^ 53\<close> from the bit lengths of \<open>p\<close> and \<open>q\<close>, and
  rounds \<open>\<bar>x\<bar> / 2 ^ e\<close> to the integer \<open>m\<close>; the result is \<open>m * 2 ^ e\<close> with the
  sign of \<open>x\<close>. It serves to show what rounding does at the threshold.
\<close>

function bitlen :: "int \<Rightarrow> int" where
  "bitlen n = (if n \<le> 0 then 0 else 1 + bitlen (n div 2))"
  by auto
termination
  by (relation "measure nat") auto

declare bitlen.simps [simp del]

definition pow2 :: "int \<Rightarrow> rat" where
  "pow2 e = (if 0 \<le> e then 2 ^ nat e else 1 / 2 ^ nat (- e))"

definition scale_num :: "int \<Rightarrow> int \<Rightarrow> int" where
  "scale_num e p = (if e < 0 then p * 2 ^ nat (- e) else p)"

definition scale_den :: "int \<Rightarrow> int \<Rightarrow> int" where
  "scale_den e q = (if e < 0 then q else q * 2 ^ nat e)"

definition div_half_even :: "int \<Rightarrow> int \<Rightarrow> int" where
  "div_half_even a b =
     (let f = a div b; r = 2 * (a mod b)
      in if r < b then f else if b < r then f + 1 else if even f then f else f + 1)"

definition round53 :: "rat \<Rightarrow> rat" where
  "round53 x =
     (if x = 0 then 0
      else
        let (p, q) = quotient_of \<bar>x\<bar>;
            e0 = bitlen p - bitlen q - 53;
            e = (if 2 ^ 53 * scale_den e0 q \<le> scale_num e0 p then e0 + 1 else e0);
            m = div_half_even (scale_num e p) (scale_den e q)
        in sgn x * (of_int m * pow2 e))"

definition binary64 :: arith where
  "binary64 = \<lparr>conv = (\<lambda>n. round53 (of_nat n)),
                fdiv = (\<lambda>a b. round53 (a / b)),
                fmul = (\<lambda>a b. round53 (a * b))\<rparr>"

section \<open>Counting\<close>

lemma map_of_foldl_counter_step:
  "map_of (foldl counter_step m xs) k =
     (if k \<in> set xs \<or> map_of m k \<noteq> None
      then Some (count_list xs k + (case map_of m k of None \<Rightarrow> 0 | Some c \<Rightarrow> c))
      else None)"
proof (induction xs arbitrary: m)
  case Nil
  show ?case by (auto split: option.splits)
next
  case (Cons x xs)
  have val: "map_of (counter_step m x) k =
      (if k = x then Some (case map_of m x of None \<Rightarrow> 1 | Some c \<Rightarrow> c + 1) else map_of m k)"
    by (simp add: counter_step_def update_conv')
  show ?case
    unfolding foldl_Cons Cons.IH val
    by (auto split: option.splits)
qed

lemma distinct_foldl_counter_step:
  "distinct (map fst m) \<Longrightarrow> distinct (map fst (foldl counter_step m xs))"
  by (induction xs arbitrary: m) (simp_all add: counter_step_def distinct_update)

lemma distinct_Counter: "distinct (map fst (Counter xs))"
  by (simp add: Counter_def distinct_foldl_counter_step)

lemma map_of_Counter: "map_of (Counter xs) = count_keys xs"
  by (rule ext) (simp add: Counter_def map_of_foldl_counter_step count_keys_def)

lemma set_Counter: "set (Counter xs) = (\<lambda>k. (k, count_list xs k)) ` set xs"
proof -
  have "(k, c) \<in> set (Counter xs) \<longleftrightarrow> k \<in> set xs \<and> c = count_list xs k" for k c
    using map_of_eq_Some_iff [OF distinct_Counter, of xs k c]
    by (auto simp: map_of_Counter count_keys_def split: if_splits)
  then show ?thesis by auto
qed

lemma set_value_counts: "set (value_counts xs) = (\<lambda>k. (k, count_list xs k)) ` set xs"
  by (simp add: value_counts_def unique_def)

lemma distinct_value_counts: "distinct (map fst (value_counts xs))"
proof -
  have "map fst (map (\<lambda>k. (k, count_list xs k)) (unique xs)) = unique xs"
    by (simp add: comp_def)
  then have "image_mset fst (mset (map (\<lambda>k. (k, count_list xs k)) (unique xs)))
      = mset (unique xs)"
    by (metis mset_map)
  then have "mset (map fst (value_counts xs)) = mset (unique xs)"
    unfolding value_counts_def mset_map mset_sort .
  then have "distinct (map fst (value_counts xs)) = distinct (unique xs)"
    by (rule mset_eq_imp_distinct_iff)
  then show ?thesis by (simp add: unique_def)
qed

lemma map_of_value_counts: "map_of (value_counts xs) = count_keys xs"
proof (rule ext)
  fix k
  show "map_of (value_counts xs) k = count_keys xs k"
  proof (cases "k \<in> set xs")
    case True
    then have "(k, count_list xs k) \<in> set (value_counts xs)"
      by (simp add: set_value_counts)
    then show ?thesis
      using True by (simp add: distinct_value_counts count_keys_def)
  next
    case False
    then have "k \<notin> fst ` set (value_counts xs)"
      by (auto simp: set_value_counts)
    then show ?thesis
      using False by (simp add: map_of_eq_None_iff count_keys_def)
  qed
qed

lemma count_keys_mset: "mset xs = mset ys \<Longrightarrow> count_keys xs = count_keys ys"
proof (rule ext)
  fix k assume eq: "mset xs = mset ys"
  have "count_list xs k = count_list ys k"
    using eq by (metis count_mset)
  moreover have "set xs = set ys" using eq by (rule mset_eq_setD)
  ultimately show "count_keys xs k = count_keys ys k" by (simp add: count_keys_def)
qed

text \<open>
  C8. The two branches of the Frequency Counter yield the same mapping from key to count:
  both map every key of the sequence to the number of its occurrences and nothing else,
  each key once, so one generic counting function (\<open>count_keys\<close>) can replace the type
  dispatch; the mapping does not depend on the order of the input. Keys are values
  without missing data (order ids, item ids, tuples of item ids), which is what the
  notebook counts: \<open>value_counts\<close> leaves out missing values, and integer keys are never
  missing.
\<close>

theorem freq_branches_agree:
  "map_of (freq (Series xs)) = count_keys xs \<and>
   map_of (freq (Iterable xs)) = count_keys xs \<and>
   set (freq (Series xs)) = set (freq (Iterable xs)) \<and>
   distinct (map fst (freq (Series xs))) \<and>
   distinct (map fst (freq (Iterable xs))) \<and>
   (mset xs = mset ys \<longrightarrow>
      map_of (freq (Series xs)) = map_of (freq (Iterable ys)) \<and>
      map_of (freq (Series xs)) = map_of (freq (Series ys)) \<and>
      map_of (freq (Iterable xs)) = map_of (freq (Iterable ys)))"
  using count_keys_mset [of xs ys]
  by (simp add: map_of_value_counts map_of_Counter set_value_counts set_Counter
      distinct_value_counts distinct_Counter)

theorem freq_branches_agree_witness:
  "mset [3, 5, 3 :: int] = mset [5, 3, 3] \<and>
   map_of (freq (Series [3, 5, 3 :: int])) = map_of (freq (Iterable [5, 3, 3])) \<and>
   map_of (freq (Iterable [3, 5, 3 :: int])) 3 = Some 2 \<and>
   freq (Iterable [3, 5, 3 :: int]) = [(3, 2), (5, 1)] \<and>
   freq (Series [5, 3, 3 :: int]) = [(3, 2), (5, 1)]"
proof -
  note t = freq_branches_agree [of "[3, 5, 3 :: int]" "[5, 3, 3]"]
  have m: "mset [3, 5, 3 :: int] = mset [5, 3, 3]" by simp
  from t m have e: "map_of (freq (Series [3, 5, 3 :: int])) = map_of (freq (Iterable [5, 3, 3]))"
    by blast
  from t have "map_of (freq (Iterable [3, 5, 3 :: int])) = count_keys [3, 5, 3]"
    by blast
  then have a: "map_of (freq (Iterable [3, 5, 3 :: int])) 3 = Some 2"
    by (simp add: count_keys_def)
  have b: "freq (Iterable [3, 5, 3 :: int]) = [(3, 2), (5, 1)]" by code_simp
  have c: "freq (Series [5, 3, 3 :: int]) = [(3, 2), (5, 1)]" by code_simp
  show ?thesis using m e a b c by blast
qed

section \<open>Grouping and pair generation\<close>

lemma groupby_concat: "concat (map snd (groupby key xs)) = xs"
  by (induction key xs rule: groupby.induct) simp_all

lemma groupby_group:
  "(k, g) \<in> set (groupby key xs) \<Longrightarrow> g \<noteq> [] \<and> (\<forall>r \<in> set g. key r = k) \<and> set g \<subseteq> set xs"
proof (induction key xs rule: groupby.induct)
  case (1 key)
  then show ?case by simp
next
  case (2 key x xs)
  from "2.prems" consider
      (hd) "k = key x" "g = x # takeWhile (\<lambda>y. key y = key x) xs"
    | (tl) "(k, g) \<in> set (groupby key (dropWhile (\<lambda>y. key y = key x) xs))"
    by auto
  then show ?case
  proof cases
    case hd
    then show ?thesis by (auto dest: set_takeWhileD)
  next
    case tl
    from "2.IH" [OF tl] show ?thesis by (auto dest: set_dropWhileD)
  qed
qed

lemma fst_set_groupby: "fst ` set (groupby key xs) = key ` set xs"
proof (induction key xs rule: groupby.induct)
  case (1 key)
  show ?case by simp
next
  case (2 key x xs)
  let ?P = "\<lambda>y. key y = key x"
  have "set xs = set (takeWhile ?P xs) \<union> set (dropWhile ?P xs)"
    by (metis set_append takeWhile_dropWhile_id)
  moreover have "key ` set (takeWhile ?P xs) \<subseteq> {key x}"
    by (auto dest: set_takeWhileD)
  ultimately have "key ` set (x # xs) = insert (key x) (key ` set (dropWhile ?P xs))"
    by auto
  then show ?case using "2.IH" by simp
qed

lemma filter_takeWhile_dropWhile:
  "filter Q xs = filter Q (takeWhile P xs) @ filter Q (dropWhile P xs)"
proof -
  have "filter Q (takeWhile P xs @ dropWhile P xs)
      = filter Q (takeWhile P xs) @ filter Q (dropWhile P xs)"
    by (rule filter_append)
  then show ?thesis by (simp only: takeWhile_dropWhile_id)
qed

lemma grouped_rows:
  "distinct (map fst (groupby key xs)) \<Longrightarrow> (k, g) \<in> set (groupby key xs) \<Longrightarrow>
     g = filter (\<lambda>r. key r = k) xs"
proof (induction key xs arbitrary: k g rule: groupby.induct)
  case (1 key)
  then show ?case by simp
next
  case (2 key x xs)
  define tw where "tw = takeWhile (\<lambda>y. key y = key x) xs"
  define rest where "rest = dropWhile (\<lambda>y. key y = key x) xs"
  have unfold: "groupby key (x # xs) = (key x, x # tw) # groupby key rest"
    by (simp add: tw_def rest_def)
  have split: "filter Q xs = filter Q tw @ filter Q rest" for Q
    unfolding tw_def rest_def by (rule filter_takeWhile_dropWhile)
  have d: "distinct (key x # map fst (groupby key rest))"
    using "2.prems"(1) unfolding unfold by simp
  note dd = distinct.simps(2) [THEN iffD1, OF d]
  have d1: "key x \<notin> set (map fst (groupby key rest))"
    by (rule conjunct1 [OF dd])
  have dist: "distinct (map fst (groupby key rest))"
    by (rule conjunct2 [OF dd])
  have notin: "key x \<notin> key ` set rest"
  proof
    assume "key x \<in> key ` set rest"
    then have "key x \<in> fst ` set (groupby key rest)"
      unfolding fst_set_groupby .
    then have mem: "key x \<in> set (map fst (groupby key rest))"
      unfolding set_map .
    show False by (rule notE [OF d1 mem])
  qed
  have tw: "\<And>r. r \<in> set tw \<Longrightarrow> key r = key x"
    unfolding tw_def by (blast dest: set_takeWhileD)
  from "2.prems"(2) have "(k, g) = (key x, x # tw) \<or> (k, g) \<in> set (groupby key rest)"
    unfolding unfold by simp
  then show ?case
  proof
    assume "(k, g) = (key x, x # tw)"
    then have k: "k = key x" and g: "g = x # tw" by simp_all
    have "filter (\<lambda>r. key r = key x) tw = tw"
      by (rule filter_True) (use tw in blast)
    moreover have "filter (\<lambda>r. key r = key x) rest = []"
    proof -
      have "key r \<noteq> key x" if "r \<in> set rest" for r
      proof
        assume "key r = key x"
        then have "key x = key r" by (rule sym)
        then have "key x \<in> key ` set rest" using that by (rule image_eqI)
        with notin show False by (rule notE)
      qed
      then show ?thesis unfolding filter_empty_conv by blast
    qed
    ultimately have "filter (\<lambda>r. key r = key x) xs = tw"
      using split [of "\<lambda>r. key r = key x"] by simp
    then show ?thesis unfolding k g by simp
  next
    assume tl: "(k, g) \<in> set (groupby key rest)"
    then have "fst (k, g) \<in> fst ` set (groupby key rest)" by (rule imageI)
    then have "k \<in> key ` set rest" using fst_set_groupby [of key rest] by simp
    then have ne: "k \<noteq> key x" using notin by blast
    have g: "g = filter (\<lambda>r. key r = k) rest"
      using "2.IH" [OF dist [unfolded rest_def] tl [unfolded rest_def]] unfolding rest_def .
    have "filter (\<lambda>r. key r = k) tw = []"
    proof -
      have "key r \<noteq> k" if "r \<in> set tw" for r
        using tw [OF that] ne by blast
      then show ?thesis unfolding filter_empty_conv by blast
    qed
    then have "filter (\<lambda>r. key r = k) xs = filter (\<lambda>r. key r = k) rest"
      using split [of "\<lambda>r. key r = k"] by simp
    then show ?thesis unfolding g using ne by simp
  qed
qed

lemma double_length_combinations2:
  "2 * length (combinations2 xs) = length xs * (length xs - 1)"
proof (induction xs)
  case Nil
  show ?case by simp
next
  case (Cons x xs)
  have "length xs * (length xs - 1) + 2 * length xs = Suc (length xs) * length xs"
    by (cases "length xs") simp_all
  then show ?case using Cons by simp
qed

lemma length_combinations2:
  "length (combinations2 xs) = length xs * (length xs - 1) div 2"
  using double_length_combinations2 [of xs] by simp

lemma set_combinations2_subset:
  "(a, b) \<in> set (combinations2 xs) \<Longrightarrow> a \<in> set xs \<and> b \<in> set xs"
  by (induction xs) auto

lemma combinations2_distinct_members:
  "distinct xs \<Longrightarrow> (a, b) \<in> set (combinations2 xs) \<Longrightarrow>
     a \<noteq> b \<and> (b, a) \<notin> set (combinations2 xs)"
  by (induction xs) (auto dest: set_combinations2_subset)

lemma distinct_combinations2: "distinct xs \<Longrightarrow> distinct (combinations2 xs)"
  by (induction xs) (auto simp: distinct_map inj_on_def dest: set_combinations2_subset)

lemma combinations2_complete:
  "a \<in> set xs \<Longrightarrow> b \<in> set xs \<Longrightarrow> a \<noteq> b \<Longrightarrow>
     (a, b) \<in> set (combinations2 xs) \<or> (b, a) \<in> set (combinations2 xs)"
  by (induction xs) auto

lemma unordered_combinations2:
  assumes "distinct xs"
  shows "unordered ` set (combinations2 xs) = {s. s \<subseteq> set xs \<and> card s = 2}"
proof (intro set_eqI iffI)
  fix s assume "s \<in> unordered ` set (combinations2 xs)"
  then obtain a b where ab: "(a, b) \<in> set (combinations2 xs)" and s: "s = {a, b}"
    by (auto simp: unordered_def)
  from ab assms have "a \<noteq> b" "a \<in> set xs" "b \<in> set xs"
    by (auto dest: combinations2_distinct_members set_combinations2_subset)
  then show "s \<in> {s. s \<subseteq> set xs \<and> card s = 2}" using s by simp
next
  fix s assume "s \<in> {s. s \<subseteq> set xs \<and> card s = 2}"
  then obtain a b where s: "s = {a, b}" and ne: "a \<noteq> b" and sub: "s \<subseteq> set xs"
    by (auto simp: card_2_iff)
  then have "(a, b) \<in> set (combinations2 xs) \<or> (b, a) \<in> set (combinations2 xs)"
    by (intro combinations2_complete) auto
  then show "s \<in> unordered ` set (combinations2 xs)"
    using s by (force simp: unordered_def image_iff)
qed

lemma inj_on_unordered_combinations2:
  assumes "distinct xs"
  shows "inj_on unordered (set (combinations2 xs))"
proof (rule inj_onI)
  fix p q assume p: "p \<in> set (combinations2 xs)" and q: "q \<in> set (combinations2 xs)"
    and eq: "unordered p = unordered q"
  obtain a b c d where pq: "p = (a, b)" "q = (c, d)" by (cases p, cases q) auto
  from eq pq have "(a = c \<and> b = d) \<or> (a = d \<and> b = c)"
    by (auto simp: unordered_def doubleton_eq_iff)
  moreover have "(b, a) \<notin> set (combinations2 xs)"
    using combinations2_distinct_members [OF assms] p pq by blast
  ultimately show "p = q" using q pq by auto
qed

lemma order_pairs_grouped:
  assumes "grouped order_item" and "g \<in> set (groupby fst order_item)"
  shows "order_pairs g = combinations2 (order_items (fst g) order_item)"
proof -
  have "(fst g, snd g) \<in> set (groupby fst order_item)" using assms(2) by simp
  then have "snd g = filter (\<lambda>r. fst r = fst g) order_item"
    using assms(1) unfolding grouped_def by (rule grouped_rows [rotated])
  then show ?thesis by (simp add: order_pairs_def order_items_def order_rows_def)
qed

lemma get_item_pairs_grouped:
  assumes "grouped order_item"
  shows "get_item_pairs order_item =
     concat (map (\<lambda>oid. combinations2 (order_items oid order_item))
       (map fst (groupby fst order_item)))"
proof -
  have "map order_pairs (groupby fst order_item) =
      map (\<lambda>g. combinations2 (order_items (fst g) order_item)) (groupby fst order_item)"
    by (rule map_cong [OF refl]) (rule order_pairs_grouped [OF assms])
  then have "concat (map order_pairs (groupby fst order_item)) =
      concat (map (\<lambda>g. combinations2 (order_items (fst g) order_item)) (groupby fst order_item))"
    by (rule arg_cong)
  then show ?thesis unfolding get_item_pairs_def map_map comp_def .
qed

text \<open>
  C2. On a grouped stream the Pair Generator emits, order by order, the
  2-combinations of the order's item list: an order with \<open>n\<close> rows emits
  \<open>n * (n - 1) div 2\<close> pairs, so none for an order of at most one item (the generator
  has no failing branch); when the items of the order are distinct, \<open>n\<close> is the number
  of distinct items, the emitted pairs are distinct and, read as unordered pairs, they are
  exactly the 2-element subsets of the order's items, each emitted once.
\<close>

theorem pairs_per_order:
  assumes "grouped order_item"
  shows "get_item_pairs order_item =
           concat (map (\<lambda>oid. combinations2 (order_items oid order_item))
             (map fst (groupby fst order_item))) \<and>
         distinct (map fst (groupby fst order_item)) \<and>
         set (map fst (groupby fst order_item)) = fst ` set order_item \<and>
         length (combinations2 (order_items oid order_item)) =
           length (order_items oid order_item) * (length (order_items oid order_item) - 1) div 2 \<and>
         (length (order_items oid order_item) \<le> 1 \<longrightarrow>
            combinations2 (order_items oid order_item) = []) \<and>
         (distinct (order_items oid order_item) \<longrightarrow>
            length (order_items oid order_item) = card (set (order_items oid order_item)) \<and>
            distinct (combinations2 (order_items oid order_item)) \<and>
            inj_on unordered (set (combinations2 (order_items oid order_item))) \<and>
            unordered ` set (combinations2 (order_items oid order_item)) =
              {s. s \<subseteq> set (order_items oid order_item) \<and> card s = 2})"
proof -
  let ?items = "order_items oid order_item"
  have zero: "combinations2 ?items = []" if "length ?items \<le> 1"
  proof -
    have "length (combinations2 ?items) = 0"
      using that by (cases "length ?items") (simp_all add: length_combinations2)
    then show ?thesis by simp
  qed
  have keys: "set (map fst (groupby fst order_item)) = fst ` set order_item"
    unfolding set_map by (rule fst_set_groupby)
  show ?thesis
    using get_item_pairs_grouped [OF assms] assms keys zero
      length_combinations2 [of ?items] distinct_combinations2 [of ?items]
      inj_on_unordered_combinations2 [of ?items] unordered_combinations2 [of ?items]
      distinct_card [of ?items]
    unfolding grouped_def by presburger
qed

theorem pairs_per_order_witness:
  "grouped [(1, 10), (1, 20), (1, 30), (2, 20), (2, 10), (3, 7)] \<and>
   get_item_pairs [(1, 10), (1, 20), (1, 30), (2, 20), (2, 10), (3, 7)] =
     [(10, 20), (10, 30), (20, 30), (20, 10)] \<and>
   distinct (order_items 1 [(1, 10), (1, 20), (1, 30), (2, 20), (2, 10), (3, 7)]) \<and>
   card (set (order_items 1 [(1, 10), (1, 20), (1, 30), (2, 20), (2, 10), (3, 7)])) = 3 \<and>
   length (combinations2 (order_items 1 [(1, 10), (1, 20), (1, 30), (2, 20), (2, 10), (3, 7)])) = 3 \<and>
   length (order_items 3 [(1, 10), (1, 20), (1, 30), (2, 20), (2, 10), (3, 7)]) \<le> 1 \<and>
   combinations2 (order_items 3 [(1, 10), (1, 20), (1, 30), (2, 20), (2, 10), (3, 7)]) = []"
proof -
  let ?s = "[(1, 10), (1, 20), (1, 30), (2, 20), (2, 10), (3, 7)] :: order_item"
  have g: "grouped ?s" by code_simp
  have p: "get_item_pairs ?s = [(10, 20), (10, 30), (20, 30), (20, 10)]" by code_simp
  have i1: "order_items 1 ?s = [10, 20, 30]" by code_simp
  have i3: "order_items 3 ?s = [7]" by code_simp
  have d1: "distinct (order_items 1 ?s)" unfolding i1 by simp
  have l3: "length (order_items 3 ?s) \<le> 1" unfolding i3 by simp
  have "length (order_items 1 ?s) = card (set (order_items 1 ?s))"
    using pairs_per_order [OF g, of 1] d1 by blast
  then have c1: "card (set (order_items 1 ?s)) = 3" unfolding i1 by simp
  have "length (combinations2 (order_items 1 ?s)) =
      length (order_items 1 ?s) * (length (order_items 1 ?s) - 1) div 2"
    using pairs_per_order [OF g, of 1] by blast
  then have n1: "length (combinations2 (order_items 1 ?s)) = 3" unfolding i1 by simp
  have e3: "combinations2 (order_items 3 ?s) = []"
    using pairs_per_order [OF g, of 3] l3 by blast
  show ?thesis using g p d1 c1 n1 l3 e3 by blast
qed

text \<open>
  C1. The claim is that the pair keys follow one canonical ordering of the two members, so
  that no unordered pair is counted under both \<open>(A, B)\<close> and \<open>(B, A)\<close>. The generator
  keeps the members in the order the stream lists them and nothing sorts the item list:
  on the grouped stream below, where order 1 lists item 10 before 20 and order 2 lists 20
  before 10, both keys are counted, once each, and both reach the rule set with support 50
  where the unordered pair has support 100.
\<close>

theorem pair_keys_both_orderings:
  "grouped [(1, 10), (1, 20), (2, 20), (2, 10)] \<and>
   freq (Iterable (get_item_pairs [(1, 10), (1, 20), (2, 20), (2, 10)])) =
     [((10, 20), 1), ((20, 10), 1)] \<and>
   association_rules [(1, 10), (1, 20), (2, 20), (2, 10)] 0 =
     Inr [\<lparr>item_A = 10, item_B = 20, freqAB = 1, supportAB = 50, freqA = 2,
             supportA = 100, freqB = 2, supportB = 100, confidenceAtoB = 1 / 2,
             confidenceBtoA = 1 / 2, lift = 1 / 200\<rparr>,
          \<lparr>item_A = 20, item_B = 10, freqAB = 1, supportAB = 50, freqA = 2,
             supportA = 100, freqB = 2, supportB = 100, confidenceAtoB = 1 / 2,
             confidenceBtoA = 1 / 2, lift = 1 / 200\<rparr>]"
  by code_simp

text \<open>
  C7. The claim is that an input on which nothing qualifies yields an empty rule set without
  an error. When no pair is counted at all (an empty stream, or no order with two
  qualifying items) the frame of pairs has a flat index, \<open>reset_index\<close> yields the column
  \<open>index\<close>, the rename finds no \<open>level_0\<close>, and the merge on \<open>item_A\<close> raises
  \<open>KeyError\<close>. The sibling case, pairs counted but none reaching the threshold, returns
  the empty rule set.
\<close>

theorem no_pairs_raises:
  "association_rules [] min_support = Inl (KeyError ''item_A'') \<and>
   association_rules [(1, 5)] 0 = Inl (KeyError ''item_A'') \<and>
   association_rules [(1, 1), (1, 2), (2, 1), (2, 3), (3, 2), (3, 3)] 50 = Inr []"
  by code_simp

section \<open>The stages of the pipeline\<close>

subsection \<open>Merging with the item statistics\<close>

lemma filter_item_id_unique:
  "distinct (map item_id st) \<Longrightarrow> s \<in> set st \<Longrightarrow>
     filter (\<lambda>t. item_id t = item_id s) st = [s]"
proof (induction st)
  case Nil
  then show ?case by simp
next
  case (Cons t st)
  have notin: "item_id t \<notin> item_id ` set st" and dist: "distinct (map item_id st)"
    using Cons.prems(1) by simp_all
  show ?case
  proof (cases "s = t")
    case True
    have "item_id u \<noteq> item_id t" if "u \<in> set st" for u
    proof
      assume "item_id u = item_id t"
      then have "item_id t = item_id u" by (rule sym)
      then have "item_id t \<in> item_id ` set st" using that by (rule image_eqI)
      with notin show False by (rule notE)
    qed
    then have "filter (\<lambda>u. item_id u = item_id t) st = []"
      unfolding filter_empty_conv by blast
    then show ?thesis using True by simp
  next
    case False
    then have mem: "s \<in> set st" using Cons.prems(2) by simp
    have "item_id t \<noteq> item_id s"
    proof
      assume "item_id t = item_id s"
      then have "item_id t \<in> item_id ` set st" using mem by (rule image_eqI)
      with notin show False by (rule notE)
    qed
    then show ?thesis using Cons.IH [OF dist mem] by simp
  qed
qed

lemma filter_stat_of:
  assumes "distinct (map item_id st)" and "a \<in> item_id ` set st"
  shows "filter (\<lambda>t. item_id t = a) st = [stat_of st a]"
proof -
  from assms(2) obtain s where s: "s \<in> set st" and a: "a = item_id s" by auto
  have "filter (\<lambda>t. item_id t = a) st = [s]"
    unfolding a by (rule filter_item_id_unique [OF assms(1) s])
  then show ?thesis by (simp add: stat_of_def)
qed

lemma stat_of_member:
  assumes "distinct (map item_id st)" and "a \<in> item_id ` set st"
  shows "stat_of st a \<in> set st \<and> item_id (stat_of st a) = a"
proof -
  have "stat_of st a \<in> set (filter (\<lambda>t. item_id t = a) st)"
    unfolding filter_stat_of [OF assms] by simp
  then show ?thesis by simp
qed

lemma concat_map_singleton_cong:
  "(\<And>x. x \<in> set xs \<Longrightarrow> f x = [g x]) \<Longrightarrow> concat (map f xs) = map g xs"
  by (induction xs) simp_all

lemma merge_item_stats_joined:
  assumes dist: "distinct (map item_id st)"
    and found: "\<And>p. p \<in> set ps \<Longrightarrow> item_A p \<in> item_id ` set st \<and> item_B p \<in> item_id ` set st"
    and cols: "''item_A'' \<in> set cols" "''item_B'' \<in> set cols"
  shows "merge_item_stats cols ps st = Inr (map (join_row st) ps)"
proof -
  have A: "concat (map (\<lambda>p. map (Pair p) (filter (\<lambda>s. item_id s = item_A p) st)) ps)
      = map (\<lambda>p. (p, stat_of st (item_A p))) ps"
    by (rule concat_map_singleton_cong) (simp add: filter_stat_of [OF dist] found)
  have B: "concat (map (\<lambda>(p, sa). map (\<lambda>sb.
             \<lparr>item_A = item_A p, item_B = item_B p,
              freqAB = freqAB p, supportAB = supportAB p,
              freqA = item_freq sa, supportA = item_support sa,
              freqB = item_freq sb, supportB = item_support sb\<rparr>)
             (filter (\<lambda>s. item_id s = item_B p) st))
           (map (\<lambda>p. (p, stat_of st (item_A p))) ps))
      = map (join_row st) ps"
    unfolding map_map comp_def
    by (rule concat_map_singleton_cong)
       (simp add: filter_stat_of [OF dist] found join_row_def)
  show ?thesis
    unfolding merge_item_stats_def Let_def A B using cols by simp
qed

lemma merge_item_stats_no_column:
  "''item_A'' \<notin> set cols \<Longrightarrow> merge_item_stats cols ps st = Inl (KeyError ''item_A'')"
  by (simp add: merge_item_stats_def)

subsection \<open>Item statistics\<close>

lemma item_id_item_stats_of:
  "map item_id (item_stats_of s) = map fst (value_counts (map snd s))"
  by (simp add: item_stats_of_def case_prod_beta)

lemma distinct_item_stats_of: "distinct (map item_id (item_stats_of s))"
  unfolding item_id_item_stats_of by (rule distinct_value_counts)

lemma set_item_id_item_stats_of: "item_id ` set (item_stats_of s) = snd ` set s"
proof -
  have "item_id ` set (item_stats_of s) = set (map item_id (item_stats_of s))" by simp
  also have "\<dots> = fst ` set (value_counts (map snd s))"
    unfolding item_id_item_stats_of by simp
  also have "\<dots> = snd ` set s"
    unfolding set_value_counts by force
  finally show ?thesis .
qed

lemma item_stats_of_row:
  assumes "t \<in> set (item_stats_of s)"
  shows "item_id t \<in> snd ` set s \<and>
         item_freq t = count_list (map snd s) (item_id t) \<and>
         item_support t = of_nat (item_freq t) / of_nat (order_count s) * 100"
proof -
  from assms obtain k c where kc: "(k, c) \<in> set (value_counts (map snd s))"
    and t: "t = \<lparr>item_id = k, item_freq = c,
                  item_support = of_nat c / of_nat (order_count s) * 100\<rparr>"
    by (auto simp: item_stats_of_def)
  from kc have "k \<in> snd ` set s" and "c = count_list (map snd s) k"
    unfolding set_value_counts by auto
  then show ?thesis unfolding t by simp
qed

lemma order_count_pos: "s \<noteq> [] \<Longrightarrow> 0 < order_count s"
  by (simp add: order_count_def card_gt_0_iff)

lemma item_stats_of_positive:
  assumes "t \<in> set (item_stats_of s)"
  shows "1 \<le> item_freq t \<and> 0 < item_support t"
proof -
  note row = item_stats_of_row [OF assms]
  from row have mem: "item_id t \<in> set (map snd s)" by simp
  then have "count_list (map snd s) (item_id t) \<noteq> 0"
    unfolding count_list_0_iff by simp
  then have f: "1 \<le> item_freq t" using row by simp
  from mem have "s \<noteq> []" by auto
  then have "0 < order_count s" by (rule order_count_pos)
  then have "0 < (of_nat (item_freq t) :: rat) / of_nat (order_count s) * 100"
    using f by simp
  then show ?thesis using f row by simp
qed

subsection \<open>Counted pairs\<close>

lemma get_item_pairs_members:
  assumes "(a, b) \<in> set (get_item_pairs s)"
  shows "a \<in> snd ` set s \<and> b \<in> snd ` set s"
proof -
  from assms obtain g where g: "g \<in> set (groupby fst s)"
    and ab: "(a, b) \<in> set (order_pairs g)"
    by (auto simp: get_item_pairs_def)
  from g have "(fst g, snd g) \<in> set (groupby fst s)" by simp
  then have sub: "set (snd g) \<subseteq> set s"
    by (rule groupby_group [THEN conjunct2, THEN conjunct2])
  from ab have "a \<in> set (map snd (snd g)) \<and> b \<in> set (map snd (snd g))"
    unfolding order_pairs_def Let_def by (rule set_combinations2_subset)
  then show ?thesis using sub by auto
qed

lemma Counter_Nil_iff: "Counter xs = [] \<longleftrightarrow> xs = []"
proof -
  have "set (Counter xs) = {} \<longleftrightarrow> set xs = {}"
    unfolding set_Counter by simp
  then show ?thesis by simp
qed

lemma nlevels_counted_pairs:
  "nlevels (counted_pairs s n) = (if get_item_pairs s = [] then 1 else 2)"
  by (simp add: counted_pairs_def pair_frame_def Counter_Nil_iff)

lemma rows_counted_pairs:
  "rows (counted_pairs s n) =
     map (\<lambda>((a, b), c). \<lparr>item_A = a, item_B = b, freqAB = c,
            supportAB = of_nat c / of_nat n * 100\<rparr>) (freq (Iterable (get_item_pairs s)))"
  by (simp add: counted_pairs_def pair_frame_def)

lemma counted_pairs_row:
  assumes "p \<in> set (rows (counted_pairs s n))"
  shows "(item_A p, item_B p) \<in> set (get_item_pairs s) \<and>
         freqAB p = count_list (get_item_pairs s) (item_A p, item_B p) \<and>
         supportAB p = of_nat (freqAB p) / of_nat n * 100"
proof -
  from assms obtain a b c where abc: "((a, b), c) \<in> set (Counter (get_item_pairs s))"
    and p: "p = \<lparr>item_A = a, item_B = b, freqAB = c, supportAB = of_nat c / of_nat n * 100\<rparr>"
    unfolding rows_counted_pairs by auto
  from abc have "(a, b) \<in> set (get_item_pairs s)" and "c = count_list (get_item_pairs s) (a, b)"
    unfolding set_Counter by auto
  then show ?thesis unfolding p by simp
qed

subsection \<open>The pipeline, unfolded\<close>

lemma counted_pairs_found:
  assumes "p \<in> set (rows (counted_pairs s n))"
  shows "item_A p \<in> item_id ` set (item_stats_of s) \<and>
         item_B p \<in> item_id ` set (item_stats_of s)"
proof -
  have "(item_A p, item_B p) \<in> set (get_item_pairs s)"
    using counted_pairs_row [OF assms] by (rule conjunct1)
  then show ?thesis
    unfolding set_item_id_item_stats_of by (rule get_item_pairs_members)
qed

lemma association_rules_unfold:
  "association_rules order_item min_support =
     (if get_item_pairs (filtered_stream order_item min_support) = []
      then Inl (KeyError ''item_A'')
      else Inr (sort_key (\<lambda>r. - lift r)
             (map add_metrics
               (map (join_row (item_stats_of (filtered_stream order_item min_support)))
                 (filter (\<lambda>p. min_support \<le> supportAB p)
                   (rows (counted_pairs (filtered_stream order_item min_support)
                      (qualifying_order_count order_item min_support))))))))"
proof -
  define s where "s = filtered_stream order_item min_support"
  define n where "n = qualifying_order_count order_item min_support"
  define fr where "fr = filter_pairs (counted_pairs s n) min_support"
  define cols where "cols = rename_columns [(''level_0'', ''item_A''), (''level_1'', ''item_B'')]
      (reset_index_columns fr)"
  have rows_fr: "rows fr = filter (\<lambda>p. min_support \<le> supportAB p) (rows (counted_pairs s n))"
    by (simp add: fr_def filter_pairs_def)
  have lev: "nlevels fr = (if get_item_pairs s = [] then 1 else 2)"
    by (simp add: fr_def filter_pairs_def nlevels_counted_pairs)
  have unfold: "association_rules order_item min_support =
      (case merge_item_stats cols (rows fr) (item_stats_of s) of
         Inl e \<Rightarrow> Inl e
       | Inr merged \<Rightarrow> Inr (sort_key (\<lambda>r. - lift r) (map add_metrics merged)))"
    by (simp add: association_rules_def Let_def s_def n_def fr_def cols_def
        filtered_stream_def qualifying_order_count_def)
  show ?thesis
  proof (cases "get_item_pairs s = []")
    case True
    then have "cols = [''index'', ''freqAB'', ''supportAB'']"
      by (simp add: cols_def reset_index_columns_def rename_columns_def lev)
    then have "''item_A'' \<notin> set cols" by simp
    then have "merge_item_stats cols (rows fr) (item_stats_of s) = Inl (KeyError ''item_A'')"
      by (rule merge_item_stats_no_column)
    then show ?thesis using True unfolding unfold s_def by simp
  next
    case False
    then have "cols = [''item_A'', ''item_B'', ''freqAB'', ''supportAB'']"
      by (simp add: cols_def reset_index_columns_def rename_columns_def lev)
    then have c: "''item_A'' \<in> set cols" "''item_B'' \<in> set cols" by simp_all
    have found: "item_A p \<in> item_id ` set (item_stats_of s) \<and>
                 item_B p \<in> item_id ` set (item_stats_of s)" if "p \<in> set (rows fr)" for p
    proof -
      from that have "p \<in> set (rows (counted_pairs s n))" unfolding rows_fr by simp
      then show ?thesis by (rule counted_pairs_found)
    qed
    have "merge_item_stats cols (rows fr) (item_stats_of s)
        = Inr (map (join_row (item_stats_of s)) (rows fr))"
      using distinct_item_stats_of found c by (rule merge_item_stats_joined)
    then show ?thesis using False unfolding unfold rows_fr s_def n_def by simp
  qed
qed

lemma association_rules_row:
  assumes "association_rules order_item min_support = Inr rules" and "r \<in> set rules"
  shows "\<exists>p. p \<in> set (rows (counted_pairs (filtered_stream order_item min_support)
                (qualifying_order_count order_item min_support))) \<and>
             min_support \<le> supportAB p \<and>
             r = add_metrics (join_row (item_stats_of (filtered_stream order_item min_support)) p)"
proof -
  let ?s = "filtered_stream order_item min_support"
  let ?n = "qualifying_order_count order_item min_support"
  let ?ps = "filter (\<lambda>p. min_support \<le> supportAB p) (rows (counted_pairs ?s ?n))"
  have "rules = sort_key (\<lambda>r. - lift r) (map add_metrics (map (join_row (item_stats_of ?s)) ?ps))"
    using assms(1) unfolding association_rules_unfold by (simp split: if_splits)
  then have "r \<in> set (map add_metrics (map (join_row (item_stats_of ?s)) ?ps))"
    using assms(2) by simp
  then obtain p where "p \<in> set ?ps" and "r = add_metrics (join_row (item_stats_of ?s) p)"
    by auto
  then show ?thesis by auto
qed

section \<open>Properties of the rule set\<close>

lemma qualifying_orders_set:
  "set (qualifying_orders s) = {k. 2 \<le> count_list (map fst s) k}"
proof -
  have "set (qualifying_orders s) = {k. k \<in> set (map fst s) \<and> 2 \<le> count_list (map fst s) k}"
    unfolding qualifying_orders_def order_size_def freq.simps set_map set_filter set_Counter
    by force
  also have "\<dots> = {k. 2 \<le> count_list (map fst s) k}"
  proof -
    have "k \<in> set (map fst s)" if "2 \<le> count_list (map fst s) k" for k
    proof (rule ccontr)
      assume "k \<notin> set (map fst s)"
      then have "count_list (map fst s) k = 0" by (rule count_notin)
      with that show False by simp
    qed
    then show ?thesis by blast
  qed
  finally show ?thesis .
qed

lemma distinct_qualifying_orders: "distinct (qualifying_orders s)"
  unfolding qualifying_orders_def order_size_def freq.simps
  by (rule distinct_map_filter) (rule distinct_Counter)

lemma qualifying_orders_subset: "set (qualifying_orders s) \<subseteq> fst ` set s"
proof
  fix k assume "k \<in> set (qualifying_orders s)"
  then have "2 \<le> count_list (map fst s) k" unfolding qualifying_orders_set by simp
  then have "count_list (map fst s) k \<noteq> 0" by simp
  then have "k \<in> set (map fst s)" unfolding count_list_0_iff by simp
  then show "k \<in> fst ` set s" by simp
qed

lemma set_prune_orders: "fst ` set (prune_orders s) = set (qualifying_orders s)"
proof -
  have "fst ` set (prune_orders s) = fst ` set s \<inter> set (qualifying_orders s)"
    unfolding prune_orders_def by force
  then show ?thesis using qualifying_orders_subset [of s] by blast
qed

lemma order_count_prune_orders: "order_count (prune_orders s) = length (qualifying_orders s)"
proof -
  have "order_count (prune_orders s) = card (set (qualifying_orders s))"
    unfolding order_count_def set_map set_prune_orders ..
  then show ?thesis using distinct_card [OF distinct_qualifying_orders [of s]] by simp
qed

lemma association_rules_rows:
  assumes "association_rules order_item min_support = Inr rules"
  shows "rules = sort_key (\<lambda>r. - lift r)
           (map add_metrics
             (map (join_row (item_stats_of (filtered_stream order_item min_support)))
               (filter (\<lambda>p. min_support \<le> supportAB p)
                 (rows (counted_pairs (filtered_stream order_item min_support)
                    (qualifying_order_count order_item min_support))))))"
  using assms unfolding association_rules_unfold by (simp split: if_splits)

lemma rule_stats:
  assumes "association_rules order_item min_support = Inr rules" and "r \<in> set rules"
  shows "stat_of (item_stats_of (filtered_stream order_item min_support)) (item_A r)
           \<in> set (item_stats_of (filtered_stream order_item min_support)) \<and>
         stat_of (item_stats_of (filtered_stream order_item min_support)) (item_B r)
           \<in> set (item_stats_of (filtered_stream order_item min_support)) \<and>
         item_id (stat_of (item_stats_of (filtered_stream order_item min_support)) (item_A r))
           = item_A r \<and>
         item_id (stat_of (item_stats_of (filtered_stream order_item min_support)) (item_B r))
           = item_B r \<and>
         freqA r = item_freq (stat_of (item_stats_of (filtered_stream order_item min_support)) (item_A r)) \<and>
         supportA r = item_support (stat_of (item_stats_of (filtered_stream order_item min_support)) (item_A r)) \<and>
         freqB r = item_freq (stat_of (item_stats_of (filtered_stream order_item min_support)) (item_B r)) \<and>
         supportB r = item_support (stat_of (item_stats_of (filtered_stream order_item min_support)) (item_B r)) \<and>
         confidenceAtoB r = supportAB r / supportA r \<and>
         confidenceBtoA r = supportAB r / supportB r \<and>
         lift r = supportAB r / (supportA r * supportB r)"
proof -
  let ?st = "item_stats_of (filtered_stream order_item min_support)"
  from association_rules_row [OF assms] obtain p where
    p: "p \<in> set (rows (counted_pairs (filtered_stream order_item min_support)
                (qualifying_order_count order_item min_support)))"
    and r: "r = add_metrics (join_row ?st p)"
    by blast
  have AB: "item_A r = item_A p" "item_B r = item_B p"
    unfolding r by (simp_all add: add_metrics_def join_row_def)
  note found = counted_pairs_found [OF p]
  have A: "stat_of ?st (item_A r) \<in> set ?st \<and> item_id (stat_of ?st (item_A r)) = item_A r"
    unfolding AB by (rule stat_of_member [OF distinct_item_stats_of conjunct1 [OF found]])
  have B: "stat_of ?st (item_B r) \<in> set ?st \<and> item_id (stat_of ?st (item_B r)) = item_B r"
    unfolding AB by (rule stat_of_member [OF distinct_item_stats_of conjunct2 [OF found]])
  have fields: "freqA r = item_freq (stat_of ?st (item_A r))"
    "supportA r = item_support (stat_of ?st (item_A r))"
    "freqB r = item_freq (stat_of ?st (item_B r))"
    "supportB r = item_support (stat_of ?st (item_B r))"
    "confidenceAtoB r = supportAB r / supportA r"
    "confidenceBtoA r = supportAB r / supportB r"
    "lift r = supportAB r / (supportA r * supportB r)"
    unfolding r by (simp_all add: add_metrics_def join_row_def)
  show ?thesis using A B fields by blast
qed

lemma example_rules:
  "association_rules [(1, 1), (1, 2), (2, 1), (2, 3), (3, 2), (4, 3)] 50 =
     Inr [\<lparr>item_A = 1, item_B = 2, freqAB = 1, supportAB = 50, freqA = 2,
        supportA = 100, freqB = 1, supportB = 50, confidenceAtoB = 1 / 2,
        confidenceBtoA = 1, lift = 1 / 100\<rparr>,
       \<lparr>item_A = 1, item_B = 3, freqAB = 1, supportAB = 50, freqA = 2,
        supportA = 100, freqB = 1, supportB = 50, confidenceAtoB = 1 / 2,
        confidenceBtoA = 1, lift = 1 / 100\<rparr>]"
  by code_simp

lemma example_rules_sorted:
  "association_rules [(1, 1), (1, 2), (2, 1), (2, 2), (2, 3), (3, 3), (3, 4), (4, 5)] 0 =
     Inr [\<lparr>item_A = 1, item_B = 2, freqAB = 2, supportAB = 200 / 3, freqA = 2,
         supportA = 200 / 3, freqB = 2, supportB = 200 / 3,
         confidenceAtoB = 1, confidenceBtoA = 1, lift = 3 / 200\<rparr>,
      \<lparr>item_A = 3, item_B = 4, freqAB = 1, supportAB = 100 / 3, freqA = 2,
         supportA = 200 / 3, freqB = 1, supportB = 100 / 3,
         confidenceAtoB = 1 / 2, confidenceBtoA = 1, lift = 3 / 200\<rparr>,
      \<lparr>item_A = 1, item_B = 3, freqAB = 1, supportAB = 100 / 3, freqA = 2,
         supportA = 200 / 3, freqB = 2, supportB = 200 / 3,
         confidenceAtoB = 1 / 2, confidenceBtoA = 1 / 2, lift = 3 / 400\<rparr>,
      \<lparr>item_A = 2, item_B = 3, freqAB = 1, supportAB = 100 / 3, freqA = 2,
         supportA = 200 / 3, freqB = 2, supportB = 200 / 3,
         confidenceAtoB = 1 / 2, confidenceBtoA = 1 / 2, lift = 3 / 400\<rparr>]"
  by code_simp

lemma example_stages:
  "filtered_stream [(1, 1), (1, 2), (2, 1), (2, 3), (3, 2), (4, 3)] 50 = [(1, 1), (1, 2), (2, 1), (2, 3)]"
  "qualifying_order_count [(1, 1), (1, 2), (2, 1), (2, 3), (3, 2), (4, 3)] 50 = 2"
  "order_count [(1, 1), (1, 2), (2, 1), (2, 3), (3, 2), (4, 3)] = 4"
  "freq (Iterable (get_item_pairs [(1, 1), (1, 2), (2, 1), (2, 3)])) = [((1, 2), 1), ((1, 3), 1)]"
  by code_simp+

text \<open>
  C4. Every member of a pair in a returned rule set has a row in the re-derived item
  statistics, with frequency at least 1 and positive support: the denominators
  \<open>supportA\<close>, \<open>supportB\<close> and \<open>supportA * supportB\<close> of the metrics are not zero.
\<close>

theorem metrics_denominators_nonzero:
  assumes "association_rules order_item min_support = Inr rules" and "r \<in> set rules"
  shows "(\<exists>sa. sa \<in> set (item_stats_of (filtered_stream order_item min_support)) \<and>
            item_id sa = item_A r \<and> item_freq sa = freqA r \<and> item_support sa = supportA r) \<and>
         (\<exists>sb. sb \<in> set (item_stats_of (filtered_stream order_item min_support)) \<and>
            item_id sb = item_B r \<and> item_freq sb = freqB r \<and> item_support sb = supportB r) \<and>
         1 \<le> freqA r \<and> 1 \<le> freqB r \<and>
         0 < supportA r \<and> 0 < supportB r \<and> supportA r * supportB r \<noteq> 0"
proof -
  let ?st = "item_stats_of (filtered_stream order_item min_support)"
  note rs = rule_stats [OF assms]
  from rs have memA: "stat_of ?st (item_A r) \<in> set ?st"
    and memB: "stat_of ?st (item_B r) \<in> set ?st" by blast+
  from rs have fA: "freqA r = item_freq (stat_of ?st (item_A r))"
    and sA: "supportA r = item_support (stat_of ?st (item_A r))"
    and fB: "freqB r = item_freq (stat_of ?st (item_B r))"
    and sB: "supportB r = item_support (stat_of ?st (item_B r))"
    and idA: "item_id (stat_of ?st (item_A r)) = item_A r"
    and idB: "item_id (stat_of ?st (item_B r)) = item_B r" by blast+
  have pA: "1 \<le> freqA r \<and> 0 < supportA r"
    unfolding fA sA by (rule item_stats_of_positive [OF memA])
  have pB: "1 \<le> freqB r \<and> 0 < supportB r"
    unfolding fB sB by (rule item_stats_of_positive [OF memB])
  have prod: "supportA r * supportB r \<noteq> 0" using pA pB by simp
  have exA: "\<exists>sa. sa \<in> set ?st \<and> item_id sa = item_A r \<and> item_freq sa = freqA r \<and>
      item_support sa = supportA r"
    using memA idA fA sA by metis
  have exB: "\<exists>sb. sb \<in> set ?st \<and> item_id sb = item_B r \<and> item_freq sb = freqB r \<and>
      item_support sb = supportB r"
    using memB idB fB sB by metis
  show ?thesis using exA exB pA pB prod by blast
qed

theorem metrics_denominators_nonzero_witness:
  "association_rules [(1, 1), (1, 2), (2, 1), (2, 3), (3, 2), (4, 3)] 50 =
     Inr [\<lparr>item_A = 1, item_B = 2, freqAB = 1, supportAB = 50, freqA = 2,
        supportA = 100, freqB = 1, supportB = 50, confidenceAtoB = 1 / 2,
        confidenceBtoA = 1, lift = 1 / 100\<rparr>,
       \<lparr>item_A = 1, item_B = 3, freqAB = 1, supportAB = 50, freqA = 2,
        supportA = 100, freqB = 1, supportB = 50, confidenceAtoB = 1 / 2,
        confidenceBtoA = 1, lift = 1 / 100\<rparr>] \<and>
   (1 :: nat) \<le> freqA \<lparr>item_A = 1, item_B = 2, freqAB = 1, supportAB = 50, freqA = 2,
        supportA = 100, freqB = 1, supportB = 50, confidenceAtoB = 1 / 2,
        confidenceBtoA = 1, lift = 1 / 100\<rparr> \<and>
   (1 :: nat) \<le> freqB \<lparr>item_A = 1, item_B = 2, freqAB = 1, supportAB = 50, freqA = 2,
        supportA = 100, freqB = 1, supportB = 50, confidenceAtoB = 1 / 2,
        confidenceBtoA = 1, lift = 1 / 100\<rparr> \<and>
   (0 :: rat) < supportA \<lparr>item_A = 1, item_B = 2, freqAB = 1, supportAB = 50, freqA = 2,
        supportA = 100, freqB = 1, supportB = 50, confidenceAtoB = 1 / 2,
        confidenceBtoA = 1, lift = 1 / 100\<rparr> \<and>
   (0 :: rat) < supportB \<lparr>item_A = 1, item_B = 2, freqAB = 1, supportAB = 50, freqA = 2,
        supportA = 100, freqB = 1, supportB = 50, confidenceAtoB = 1 / 2,
        confidenceBtoA = 1, lift = 1 / 100\<rparr> \<and>
   (\<exists>sa. sa \<in> set (item_stats_of (filtered_stream [(1, 1), (1, 2), (2, 1), (2, 3), (3, 2), (4, 3)] 50)) \<and>
      item_id sa = 1 \<and> item_freq sa = 2 \<and> item_support sa = 100)"
proof -
  have "(\<exists>sa. sa \<in> set (item_stats_of (filtered_stream [(1, 1), (1, 2), (2, 1), (2, 3), (3, 2), (4, 3)] 50)) \<and>
      item_id sa = 1 \<and> item_freq sa = 2 \<and> item_support sa = 100)"
    using metrics_denominators_nonzero [OF example_rules, of "\<lparr>item_A = 1, item_B = 2, freqAB = 1, supportAB = 50, freqA = 2,
        supportA = 100, freqB = 1, supportB = 50, confidenceAtoB = 1 / 2,
        confidenceBtoA = 1, lift = 1 / 100\<rparr>"]
    by simp
  then show ?thesis using example_rules by simp
qed

text \<open>
  C6. For every returned row, \<open>confidenceAtoB * supportA\<close> and
  \<open>confidenceBtoA * supportB\<close> are equal, and both equal \<open>supportAB\<close> (exactly, over
  the rationals).
\<close>

theorem confidence_support_products:
  assumes "association_rules order_item min_support = Inr rules" and "r \<in> set rules"
  shows "confidenceAtoB r = supportAB r / supportA r \<and>
         confidenceBtoA r = supportAB r / supportB r \<and>
         confidenceAtoB r * supportA r = supportAB r \<and>
         confidenceBtoA r * supportB r = supportAB r \<and>
         confidenceAtoB r * supportA r = confidenceBtoA r * supportB r"
proof -
  let ?st = "item_stats_of (filtered_stream order_item min_support)"
  note rs = rule_stats [OF assms]
  from rs have memA: "stat_of ?st (item_A r) \<in> set ?st"
    and memB: "stat_of ?st (item_B r) \<in> set ?st" by blast+
  from rs have sA: "supportA r = item_support (stat_of ?st (item_A r))"
    and sB: "supportB r = item_support (stat_of ?st (item_B r))"
    and cA: "confidenceAtoB r = supportAB r / supportA r"
    and cB: "confidenceBtoA r = supportAB r / supportB r" by blast+
  have "0 < supportA r" unfolding sA using item_stats_of_positive [OF memA] by (rule conjunct2)
  then have nzA: "supportA r \<noteq> 0" by simp
  have "0 < supportB r" unfolding sB using item_stats_of_positive [OF memB] by (rule conjunct2)
  then have nzB: "supportB r \<noteq> 0" by simp
  have pA: "confidenceAtoB r * supportA r = supportAB r" unfolding cA using nzA by simp
  have pB: "confidenceBtoA r * supportB r = supportAB r" unfolding cB using nzB by simp
  show ?thesis using cA cB pA pB by simp
qed

theorem confidence_support_products_witness:
  "association_rules [(1, 1), (1, 2), (2, 1), (2, 3), (3, 2), (4, 3)] 50 =
     Inr [\<lparr>item_A = 1, item_B = 2, freqAB = 1, supportAB = 50, freqA = 2,
        supportA = 100, freqB = 1, supportB = 50, confidenceAtoB = 1 / 2,
        confidenceBtoA = 1, lift = 1 / 100\<rparr>,
       \<lparr>item_A = 1, item_B = 3, freqAB = 1, supportAB = 50, freqA = 2,
        supportA = 100, freqB = 1, supportB = 50, confidenceAtoB = 1 / 2,
        confidenceBtoA = 1, lift = 1 / 100\<rparr>] \<and>
   confidenceAtoB \<lparr>item_A = 1, item_B = 2, freqAB = 1, supportAB = 50, freqA = 2,
        supportA = 100, freqB = 1, supportB = 50, confidenceAtoB = 1 / 2,
        confidenceBtoA = 1, lift = 1 / 100\<rparr> * supportA \<lparr>item_A = 1, item_B = 2, freqAB = 1, supportAB = 50, freqA = 2,
        supportA = 100, freqB = 1, supportB = 50, confidenceAtoB = 1 / 2,
        confidenceBtoA = 1, lift = 1 / 100\<rparr> = 50 \<and>
   confidenceBtoA \<lparr>item_A = 1, item_B = 2, freqAB = 1, supportAB = 50, freqA = 2,
        supportA = 100, freqB = 1, supportB = 50, confidenceAtoB = 1 / 2,
        confidenceBtoA = 1, lift = 1 / 100\<rparr> * supportB \<lparr>item_A = 1, item_B = 2, freqAB = 1, supportAB = 50, freqA = 2,
        supportA = 100, freqB = 1, supportB = 50, confidenceAtoB = 1 / 2,
        confidenceBtoA = 1, lift = 1 / 100\<rparr> = 50 \<and>
   supportAB \<lparr>item_A = 1, item_B = 2, freqAB = 1, supportAB = 50, freqA = 2,
        supportA = 100, freqB = 1, supportB = 50, confidenceAtoB = 1 / 2,
        confidenceBtoA = 1, lift = 1 / 100\<rparr> = 50"
  using confidence_support_products [OF example_rules, of "\<lparr>item_A = 1, item_B = 2, freqAB = 1, supportAB = 50, freqA = 2,
        supportA = 100, freqB = 1, supportB = 50, confidenceAtoB = 1 / 2,
        confidenceBtoA = 1, lift = 1 / 100\<rparr>"] example_rules
  by simp

text \<open>
  C9. A returned rule set is sorted by lift, descending: the lift of every row is at
  least the lift of each later row, in particular of the row after it.
\<close>

theorem rules_sorted_by_lift:
  assumes "association_rules order_item min_support = Inr rules"
  shows "sorted_wrt (\<lambda>r r'. lift r' \<le> lift r) rules \<and>
         (\<forall>i. Suc i < length rules \<longrightarrow> lift (rules ! Suc i) \<le> lift (rules ! i))"
proof -
  have "sorted (map (\<lambda>r. - lift r) rules)"
    unfolding association_rules_rows [OF assms] by (rule sorted_sort_key)
  then have "sorted_wrt (\<lambda>r r'. - lift r \<le> - lift r') rules"
    unfolding sorted_map .
  then have s: "sorted_wrt (\<lambda>r r'. lift r' \<le> lift r) rules" by simp
  have "lift (rules ! Suc i) \<le> lift (rules ! i)" if "Suc i < length rules" for i
    using s that by (simp add: sorted_wrt_iff_nth_less)
  then show ?thesis using s by blast
qed

theorem rules_sorted_by_lift_witness:
  "association_rules [(1, 1), (1, 2), (2, 1), (2, 2), (2, 3), (3, 3), (3, 4), (4, 5)] 0 =
     Inr [\<lparr>item_A = 1, item_B = 2, freqAB = 2, supportAB = 200 / 3, freqA = 2,
         supportA = 200 / 3, freqB = 2, supportB = 200 / 3,
         confidenceAtoB = 1, confidenceBtoA = 1, lift = 3 / 200\<rparr>,
      \<lparr>item_A = 3, item_B = 4, freqAB = 1, supportAB = 100 / 3, freqA = 2,
         supportA = 200 / 3, freqB = 1, supportB = 100 / 3,
         confidenceAtoB = 1 / 2, confidenceBtoA = 1, lift = 3 / 200\<rparr>,
      \<lparr>item_A = 1, item_B = 3, freqAB = 1, supportAB = 100 / 3, freqA = 2,
         supportA = 200 / 3, freqB = 2, supportB = 200 / 3,
         confidenceAtoB = 1 / 2, confidenceBtoA = 1 / 2, lift = 3 / 400\<rparr>,
      \<lparr>item_A = 2, item_B = 3, freqAB = 1, supportAB = 100 / 3, freqA = 2,
         supportA = 200 / 3, freqB = 2, supportB = 200 / 3,
         confidenceAtoB = 1 / 2, confidenceBtoA = 1 / 2, lift = 3 / 400\<rparr>] \<and>
   sorted_wrt (\<lambda>r r'. lift r' \<le> lift r)
     [\<lparr>item_A = 1, item_B = 2, freqAB = 2, supportAB = 200 / 3, freqA = 2,
         supportA = 200 / 3, freqB = 2, supportB = 200 / 3,
         confidenceAtoB = 1, confidenceBtoA = 1, lift = 3 / 200\<rparr>,
      \<lparr>item_A = 3, item_B = 4, freqAB = 1, supportAB = 100 / 3, freqA = 2,
         supportA = 200 / 3, freqB = 1, supportB = 100 / 3,
         confidenceAtoB = 1 / 2, confidenceBtoA = 1, lift = 3 / 200\<rparr>,
      \<lparr>item_A = 1, item_B = 3, freqAB = 1, supportAB = 100 / 3, freqA = 2,
         supportA = 200 / 3, freqB = 2, supportB = 200 / 3,
         confidenceAtoB = 1 / 2, confidenceBtoA = 1 / 2, lift = 3 / 400\<rparr>,
      \<lparr>item_A = 2, item_B = 3, freqAB = 1, supportAB = 100 / 3, freqA = 2,
         supportA = 200 / 3, freqB = 2, supportB = 200 / 3,
         confidenceAtoB = 1 / 2, confidenceBtoA = 1 / 2, lift = 3 / 400\<rparr>] \<and>
   map lift [\<lparr>item_A = 1, item_B = 2, freqAB = 2, supportAB = 200 / 3, freqA = 2,
         supportA = 200 / 3, freqB = 2, supportB = 200 / 3,
         confidenceAtoB = 1, confidenceBtoA = 1, lift = 3 / 200\<rparr>,
      \<lparr>item_A = 3, item_B = 4, freqAB = 1, supportAB = 100 / 3, freqA = 2,
         supportA = 200 / 3, freqB = 1, supportB = 100 / 3,
         confidenceAtoB = 1 / 2, confidenceBtoA = 1, lift = 3 / 200\<rparr>,
      \<lparr>item_A = 1, item_B = 3, freqAB = 1, supportAB = 100 / 3, freqA = 2,
         supportA = 200 / 3, freqB = 2, supportB = 200 / 3,
         confidenceAtoB = 1 / 2, confidenceBtoA = 1 / 2, lift = 3 / 400\<rparr>,
      \<lparr>item_A = 2, item_B = 3, freqAB = 1, supportAB = 100 / 3, freqA = 2,
         supportA = 200 / 3, freqB = 2, supportB = 200 / 3,
         confidenceAtoB = 1 / 2, confidenceBtoA = 1 / 2, lift = 3 / 400\<rparr>] = [3 / 200, 3 / 200, 3 / 400, 3 / 400]"
proof -
  have "sorted_wrt (\<lambda>r r'. lift r' \<le> lift r)
     [\<lparr>item_A = 1, item_B = 2, freqAB = 2, supportAB = 200 / 3, freqA = 2,
         supportA = 200 / 3, freqB = 2, supportB = 200 / 3,
         confidenceAtoB = 1, confidenceBtoA = 1, lift = 3 / 200\<rparr>,
      \<lparr>item_A = 3, item_B = 4, freqAB = 1, supportAB = 100 / 3, freqA = 2,
         supportA = 200 / 3, freqB = 1, supportB = 100 / 3,
         confidenceAtoB = 1 / 2, confidenceBtoA = 1, lift = 3 / 200\<rparr>,
      \<lparr>item_A = 1, item_B = 3, freqAB = 1, supportAB = 100 / 3, freqA = 2,
         supportA = 200 / 3, freqB = 2, supportB = 200 / 3,
         confidenceAtoB = 1 / 2, confidenceBtoA = 1 / 2, lift = 3 / 400\<rparr>,
      \<lparr>item_A = 2, item_B = 3, freqAB = 1, supportAB = 100 / 3, freqA = 2,
         supportA = 200 / 3, freqB = 2, supportB = 200 / 3,
         confidenceAtoB = 1 / 2, confidenceBtoA = 1 / 2, lift = 3 / 400\<rparr>]"
    using rules_sorted_by_lift [OF example_rules_sorted] by (rule conjunct1)
  then show ?thesis using example_rules_sorted by simp
qed

text \<open>
  C10. After the order-size filter the order ids left in the stream are exactly the
  qualifying orders (the ids with at least two rows after item pruning), each listed once,
  so \<open>order_count\<close> of the filtered stream equals \<open>len(qualifying_orders)\<close>: the
  re-derived item supports and the pair supports are percentages of the same order count.
\<close>

theorem same_order_count:
  "set (map fst (filtered_stream order_item min_support)) =
     set (qualifying_orders (prune_items order_item min_support)) \<and>
   set (qualifying_orders (prune_items order_item min_support)) =
     {k. 2 \<le> count_list (map fst (prune_items order_item min_support)) k} \<and>
   distinct (qualifying_orders (prune_items order_item min_support)) \<and>
   order_count (filtered_stream order_item min_support) =
     qualifying_order_count order_item min_support \<and>
   (\<forall>t \<in> set (item_stats_of (filtered_stream order_item min_support)).
      item_support t =
        of_nat (item_freq t) / of_nat (qualifying_order_count order_item min_support) * 100) \<and>
   (\<forall>p \<in> set (rows (counted_pairs (filtered_stream order_item min_support)
                 (qualifying_order_count order_item min_support))).
      supportAB p =
        of_nat (freqAB p) / of_nat (qualifying_order_count order_item min_support) * 100)"
proof -
  let ?s1 = "prune_items order_item min_support"
  have oc: "order_count (filtered_stream order_item min_support) =
      qualifying_order_count order_item min_support"
    unfolding filtered_stream_def qualifying_order_count_def
    by (rule order_count_prune_orders)
  have a: "set (map fst (filtered_stream order_item min_support)) = set (qualifying_orders ?s1)"
    unfolding filtered_stream_def set_map by (rule set_prune_orders)
  have st: "item_support t =
      of_nat (item_freq t) / of_nat (qualifying_order_count order_item min_support) * 100"
    if "t \<in> set (item_stats_of (filtered_stream order_item min_support))" for t
    using item_stats_of_row [OF that] unfolding oc by simp
  have ps: "supportAB p =
      of_nat (freqAB p) / of_nat (qualifying_order_count order_item min_support) * 100"
    if "p \<in> set (rows (counted_pairs (filtered_stream order_item min_support)
           (qualifying_order_count order_item min_support)))" for p
    using counted_pairs_row [OF that] by simp
  show ?thesis
    using a qualifying_orders_set [of ?s1] distinct_qualifying_orders [of ?s1] oc st ps
    by blast
qed

theorem same_order_count_witness:
  "order_count [(1, 1), (1, 2), (2, 1), (2, 3), (3, 2), (4, 3)] = 4 \<and>
   set (map fst (filtered_stream [(1, 1), (1, 2), (2, 1), (2, 3), (3, 2), (4, 3)] 50)) = {1, 2} \<and>
   set (qualifying_orders (prune_items [(1, 1), (1, 2), (2, 1), (2, 3), (3, 2), (4, 3)] 50)) = {1, 2} \<and>
   order_count (filtered_stream [(1, 1), (1, 2), (2, 1), (2, 3), (3, 2), (4, 3)] 50) = 2 \<and>
   qualifying_order_count [(1, 1), (1, 2), (2, 1), (2, 3), (3, 2), (4, 3)] 50 = 2"
proof -
  note t = same_order_count [of "[(1, 1), (1, 2), (2, 1), (2, 3), (3, 2), (4, 3)]" 50]
  have q: "qualifying_order_count [(1, 1), (1, 2), (2, 1), (2, 3), (3, 2), (4, 3)] 50 = 2" by (rule example_stages(2))
  have f: "set (map fst (filtered_stream [(1, 1), (1, 2), (2, 1), (2, 3), (3, 2), (4, 3)] 50)) = {1, 2}"
    unfolding example_stages(1) by auto
  from t have "set (map fst (filtered_stream [(1, 1), (1, 2), (2, 1), (2, 3), (3, 2), (4, 3)] 50)) =
      set (qualifying_orders (prune_items [(1, 1), (1, 2), (2, 1), (2, 3), (3, 2), (4, 3)] 50))" by (rule conjunct1)
  then have s: "set (qualifying_orders (prune_items [(1, 1), (1, 2), (2, 1), (2, 3), (3, 2), (4, 3)] 50)) = {1, 2}"
    using f by simp
  from t have "order_count (filtered_stream [(1, 1), (1, 2), (2, 1), (2, 3), (3, 2), (4, 3)] 50) = qualifying_order_count [(1, 1), (1, 2), (2, 1), (2, 3), (3, 2), (4, 3)] 50"
    by blast
  then have o: "order_count (filtered_stream [(1, 1), (1, 2), (2, 1), (2, 3), (3, 2), (4, 3)] 50) = 2" using q by simp
  show ?thesis using example_stages(3) f s o q by blast
qed

section \<open>The rule set over machine arithmetic\<close>













subsection \<open>The exact instance\<close>











subsection \<open>Rounding at the threshold\<close>

text \<open>
  With 29 of 50 qualifying orders the exact support is 58; binary64 computes
  \<open>29 / 50\<close> and then the product with 100 as the float just below 58, so at
  \<open>min_support = 58\<close> the comparison fails. On the stream below (50 orders, items 1 and 2
  together in 29 of them, items 1 and 3 in 30) the pipeline over the rounding arithmetic
  returns the pair \<open>(1, 3)\<close> alone, and over exact arithmetic both pairs.
\<close>

lemma binary64_29_of_50:
  "percent exact 29 50 = 58 \<and>
   percent binary64 29 50 = 8162774324609023 / 2 ^ 47 \<and>
   percent binary64 30 50 = 60"
  by code_simp

lemma binary64_below_threshold: "percent binary64 29 50 < 58"
proof -
  have "percent binary64 29 50 = 8162774324609023 / 2 ^ 47"
    using binary64_29_of_50 by (rule conjunct1 [OF conjunct2])
  then show ?thesis by simp
qed

lemma binary64_drops_rounded_pair:
  "association_rules_fp binary64
     [(1, 1), (1, 2), (2, 1), (2, 2), (3, 1), (3, 2), (4, 1), (4, 2), (5, 1), (5, 2), (6, 1), (6, 2), (7, 1), (7, 2), (8, 1), (8, 2), (9, 1), (9, 2), (10, 1), (10, 2), (11, 1), (11, 2), (12, 1), (12, 2), (13, 1), (13, 2), (14, 1), (14, 2), (15, 1), (15, 2), (16, 1), (16, 2), (17, 1), (17, 2), (18, 1), (18, 2), (19, 1), (19, 2), (20, 1), (20, 2), (20, 3), (21, 1), (21, 2), (21, 3), (22, 1), (22, 2), (22, 3), (23, 1), (23, 2), (23, 3), (24, 1), (24, 2), (24, 3), (25, 1), (25, 2), (25, 3), (26, 1), (26, 2), (26, 3), (27, 1), (27, 2), (27, 3), (28, 1), (28, 2), (28, 3), (29, 1), (29, 2), (29, 3), (30, 2), (30, 3), (31, 1), (31, 3), (32, 1), (32, 3), (33, 1), (33, 3), (34, 1), (34, 3), (35, 1), (35, 3), (36, 1), (36, 3), (37, 1), (37, 3), (38, 1), (38, 3), (39, 1), (39, 3), (40, 1), (40, 3), (41, 1), (41, 3), (42, 1), (42, 3), (43, 1), (43, 3), (44, 1), (44, 3), (45, 1), (45, 3), (46, 1), (46, 3), (47, 1), (47, 3), (48, 1), (48, 3), (49, 1), (49, 3), (50, 1), (50, 3)] 58 =
   Inr [\<lparr>item_A = 1, item_B = 3, freqAB = 30, supportAB = 60, freqA = 49,
          supportA = 98, freqB = 31, supportB = 62,
          confidenceAtoB = round53 (60 / 98), confidenceBtoA = round53 (60 / 62),
          lift = round53 (60 / round53 (98 * 62))\<rparr>]"
  by code_simp

lemma exact_keeps_rounded_pair:
  "association_rules_fp exact
     [(1, 1), (1, 2), (2, 1), (2, 2), (3, 1), (3, 2), (4, 1), (4, 2), (5, 1), (5, 2), (6, 1), (6, 2), (7, 1), (7, 2), (8, 1), (8, 2), (9, 1), (9, 2), (10, 1), (10, 2), (11, 1), (11, 2), (12, 1), (12, 2), (13, 1), (13, 2), (14, 1), (14, 2), (15, 1), (15, 2), (16, 1), (16, 2), (17, 1), (17, 2), (18, 1), (18, 2), (19, 1), (19, 2), (20, 1), (20, 2), (20, 3), (21, 1), (21, 2), (21, 3), (22, 1), (22, 2), (22, 3), (23, 1), (23, 2), (23, 3), (24, 1), (24, 2), (24, 3), (25, 1), (25, 2), (25, 3), (26, 1), (26, 2), (26, 3), (27, 1), (27, 2), (27, 3), (28, 1), (28, 2), (28, 3), (29, 1), (29, 2), (29, 3), (30, 2), (30, 3), (31, 1), (31, 3), (32, 1), (32, 3), (33, 1), (33, 3), (34, 1), (34, 3), (35, 1), (35, 3), (36, 1), (36, 3), (37, 1), (37, 3), (38, 1), (38, 3), (39, 1), (39, 3), (40, 1), (40, 3), (41, 1), (41, 3), (42, 1), (42, 3), (43, 1), (43, 3), (44, 1), (44, 3), (45, 1), (45, 3), (46, 1), (46, 3), (47, 1), (47, 3), (48, 1), (48, 3), (49, 1), (49, 3), (50, 1), (50, 3)] 58 =
   Inr [\<lparr>item_A = 1, item_B = 3, freqAB = 30, supportAB = 60, freqA = 49,
          supportA = 98, freqB = 31, supportB = 62,
          confidenceAtoB = 60 / 98, confidenceBtoA = 60 / 62,
          lift = 60 / (98 * 62)\<rparr>,
        \<lparr>item_A = 1, item_B = 2, freqAB = 29, supportAB = 58, freqA = 49,
          supportA = 98, freqB = 30, supportB = 60,
          confidenceAtoB = 58 / 98, confidenceBtoA = 58 / 60,
          lift = 58 / (98 * 60)\<rparr>]"
  by code_simp

section \<open>Lift and the order of the members\<close>

text \<open>
  C5. The claim is that the lift of a pair is \<open>supportAB / (supportA * supportB)\<close> and
  that it is the same for \<open>(A, B)\<close> and \<open>(B, A)\<close>, for every pair in the output. Every
  row's lift is computed by that formula (lemma \<open>rule_stats\<close>), but the pair support in
  it is the support of the ordered key. On the grouped stream below, where order 1 lists
  item 1 before item 3 and orders 2 and 3 list 3 before 1, the rule set holds the key
  \<open>(3, 1)\<close> with lift \<open>1 / 150\<close> and the key \<open>(1, 3)\<close> with lift \<open>1 / 300\<close>: the
  missing canonical ordering of C1 makes the lift depend on the order of the members.
\<close>

theorem lift_differs_between_orderings:
  "grouped [(1, 1), (1, 3), (2, 3), (2, 1), (3, 3), (3, 1)] \<and>
   association_rules [(1, 1), (1, 3), (2, 3), (2, 1), (3, 3), (3, 1)] 0 =
     Inr [\<lparr>item_A = 3, item_B = 1, freqAB = 2, supportAB = 200 / 3, freqA = 3,
            supportA = 100, freqB = 3, supportB = 100, confidenceAtoB = 2 / 3,
            confidenceBtoA = 2 / 3, lift = 1 / 150\<rparr>,
          \<lparr>item_A = 1, item_B = 3, freqAB = 1, supportAB = 100 / 3, freqA = 3,
            supportA = 100, freqB = 3, supportB = 100, confidenceAtoB = 1 / 3,
            confidenceBtoA = 1 / 3, lift = 1 / 300\<rparr>]"
  by code_simp

end
